theory Spec2Isabelle
  imports Complex_Main "HOL-Library.AList" "HOL-Library.Product_Lexorder"
    "HOL-Library.Char_ord" "HOL-Library.List_Lexorder"
begin

section \<open>Python dictionaries\<close>

text \<open>
  A Python \<^verbatim>\<open>dict\<close> keeps its items in insertion order and has one item per key.
  It is modelled as an association list whose keys are distinct; \<open>d[k] = v\<close> is
  \<^const>\<open>AList.update\<close> (an old key keeps its place, a new key goes to the end),
  \<open>d[k]\<close> is \<^const>\<open>map_of\<close>, \<open>k in d\<close> is membership in \<open>dict_keys d\<close>.
  Two dicts are equal when they hold the same items, in any order.
\<close>

type_synonym ('k, 'v) dict = "('k \<times> 'v) list"

definition dict_keys :: "('k, 'v) dict \<Rightarrow> 'k list" where
  "dict_keys d = map fst d"

definition dict_values :: "('k, 'v) dict \<Rightarrow> 'v list" where
  "dict_values d = map snd d"

definition is_dict :: "('k, 'v) dict \<Rightarrow> bool" where
  "is_dict d = distinct (dict_keys d)"

definition dict_eq :: "('k, 'v) dict \<Rightarrow> ('k, 'v) dict \<Rightarrow> bool" where
  "dict_eq a b = (set a = set b)"

section \<open>training.Counter\<close>

text \<open>
  \<^verbatim>\<open>Counter\<close> holds a dict \<^verbatim>\<open>_d\<close> from pair ids to counts and the sum \<^verbatim>\<open>total\<close> of
  the counts. \<^verbatim>\<open>__init__\<close> takes the dict as it is when given a Mapping, and counts
  the elements of any other iterable.
\<close>

record 'k counter =
  c_d :: "('k, int) dict"
  c_total :: int

definition Counter_mapping :: "('k, int) dict \<Rightarrow> 'k counter" where
  "Counter_mapping m = \<lparr>c_d = m, c_total = sum_list (dict_values m)\<rparr>"

definition count_elem :: "('k, int) dict \<Rightarrow> 'k \<Rightarrow> ('k, int) dict" where
  "count_elem d e =
     AList.update e ((case map_of d e of None \<Rightarrow> 0 | Some c \<Rightarrow> c) + 1) d"

definition Counter_iterable :: "'k list \<Rightarrow> 'k counter" where
  "Counter_iterable xs = Counter_mapping (foldl count_elem [] xs)"

definition counter_len :: "'k counter \<Rightarrow> nat" where
  "counter_len c = length (c_d c)"

definition counter_eq :: "'k counter \<Rightarrow> 'k counter \<Rightarrow> bool" where
  "counter_eq a b = dict_eq (c_d a) (c_d b)"

text \<open>
  \<^verbatim>\<open>__mul__\<close>: the side with fewer keys is iterated, the other is looked up.
\<close>

definition common_items :: "('k, int) dict \<Rightarrow> ('k, int) dict \<Rightarrow> ('k, int) dict" where
  "common_items smaller larger =
     map (\<lambda>(k, v). (k, v * the (map_of larger k)))
       (filter (\<lambda>(k, v). k \<in> set (dict_keys larger)) smaller)"

definition counter_mul :: "'k counter \<Rightarrow> 'k counter \<Rightarrow> 'k counter" where
  "counter_mul a b =
     (let (smaller, larger) =
            (if counter_len a \<le> counter_len b then (c_d a, c_d b) else (c_d b, c_d a))
      in Counter_mapping (common_items smaller larger))"

section \<open>Counter multiplication\<close>

lemma common_items_keys:
  "dict_keys (common_items s l) = filter (\<lambda>k. k \<in> set (dict_keys l)) (dict_keys s)"
  by (induction s) (auto simp: common_items_def dict_keys_def intro: rev_image_eqI)

lemma common_items_is_dict: "is_dict s \<Longrightarrow> is_dict (common_items s l)"
  by (simp add: is_dict_def common_items_keys)

lemma common_items_lookup:
  "map_of (common_items s l) k =
     (if k \<in> set (dict_keys l) then map_option (\<lambda>v. v * the (map_of l k)) (map_of s k)
      else None)"
  by (induction s) (auto simp: common_items_def dict_keys_def intro: rev_image_eqI)

lemma common_items_set:
  assumes "is_dict s" "is_dict l"
  shows "set (common_items s l) =
     {(k, v * w) | k v w. map_of s k = Some v \<and> map_of l k = Some w}"
proof -
  have "\<And>k u. (k, u) \<in> set (common_items s l) \<longleftrightarrow>
      (\<exists>v w. u = v * w \<and> map_of s k = Some v \<and> map_of l k = Some w)"
  proof -
    fix k u
    have "(k, u) \<in> set (common_items s l) \<longleftrightarrow> map_of (common_items s l) k = Some u"
      using common_items_is_dict [OF assms(1), of l]
      by (simp add: is_dict_def dict_keys_def)
    also have "\<dots> \<longleftrightarrow> (\<exists>v w. u = v * w \<and> map_of s k = Some v \<and> map_of l k = Some w)"
      by (auto simp: common_items_lookup dict_keys_def map_of_eq_None_iff
          dest: weak_map_of_SomeI)
         (metis domD domI dom_map_of_conv_image_fst option.sel)+
    finally show "(k, u) \<in> set (common_items s l) \<longleftrightarrow>
      (\<exists>v w. u = v * w \<and> map_of s k = Some v \<and> map_of l k = Some w)" .
  qed
  then show ?thesis by auto
qed

lemma common_items_total:
  assumes "is_dict s"
  shows "sum_list (dict_values (common_items s l)) =
     (\<Sum>k \<in> set (dict_keys s) \<inter> set (dict_keys l). the (map_of s k) * the (map_of l k))"
proof -
  let ?ks = "filter (\<lambda>k. k \<in> set (dict_keys l)) (dict_keys s)"
  have vals: "dict_values (common_items s l) =
      map (\<lambda>k. the (map_of s k) * the (map_of l k)) ?ks"
    using assms
    by (induction s)
       (auto simp: common_items_def dict_values_def dict_keys_def is_dict_def
             intro: rev_image_eqI)
  have "distinct ?ks" using assms by (simp add: is_dict_def)
  then have "sum_list (map (\<lambda>k. the (map_of s k) * the (map_of l k)) ?ks) =
      sum (\<lambda>k. the (map_of s k) * the (map_of l k)) (set ?ks)"
    by (rule sum_list_distinct_conv_sum_set)
  moreover have "set ?ks = set (dict_keys s) \<inter> set (dict_keys l)" by auto
  ultimately show ?thesis by (simp add: vals)
qed

lemma common_items_commute:
  assumes "is_dict a" "is_dict b"
  shows "set (common_items a b) = set (common_items b a)"
  unfolding common_items_set [OF assms] common_items_set [OF assms(2) assms(1)]
  by (auto simp: mult.commute)

lemma common_items_value:
  assumes "k \<in> set (dict_keys s)" "k \<in> set (dict_keys l)"
  shows "map_of (common_items s l) k = Some (the (map_of s k) * the (map_of l k))"
proof -
  from assms(1) obtain v where "map_of s k = Some v"
    by (metis dict_keys_def domD dom_map_of_conv_image_fst list.set_map)
  with assms(2) show ?thesis by (simp add: common_items_lookup)
qed

lemma common_items_total_swapped:
  assumes "is_dict l"
  shows "sum_list (dict_values (common_items l s)) =
     (\<Sum>k \<in> set (dict_keys s) \<inter> set (dict_keys l). the (map_of s k) * the (map_of l k))"
proof -
  have "(\<Sum>k \<in> set (dict_keys l) \<inter> set (dict_keys s). the (map_of l k) * the (map_of s k)) =
      (\<Sum>k \<in> set (dict_keys s) \<inter> set (dict_keys l). the (map_of s k) * the (map_of l k))"
    by (simp only: Int_commute mult.commute)
  then show ?thesis by (simp only: common_items_total [OF assms])
qed

lemma counter_mul_le:
  "counter_len a \<le> counter_len b \<Longrightarrow>
     counter_mul a b = Counter_mapping (common_items (c_d a) (c_d b))"
  by (simp add: counter_mul_def)

lemma counter_mul_gt:
  "\<not> counter_len a \<le> counter_len b \<Longrightarrow>
     counter_mul a b = Counter_mapping (common_items (c_d b) (c_d a))"
  by (simp add: counter_mul_def)

lemma counter_mul_items:
  assumes "is_dict (c_d a)" "is_dict (c_d b)"
  shows "set (c_d (counter_mul a b)) = set (common_items (c_d a) (c_d b))"
proof (cases "counter_len a \<le> counter_len b")
  case True
  then show ?thesis by (simp add: counter_mul_le Counter_mapping_def)
next
  case False
  then show ?thesis
    using common_items_commute [OF assms] by (simp add: counter_mul_gt Counter_mapping_def)
qed

text \<open>
  Claim C3. For Counters \<open>A\<close> and \<open>B\<close> (their \<^verbatim>\<open>_d\<close> being dicts), the product \<open>A * B\<close>
  is a Counter whose keys are the keys common to \<open>A\<close> and \<open>B\<close>, whose count at a common
  key \<open>k\<close> is \<open>A[k] * B[k]\<close>, whose \<^verbatim>\<open>total\<close> is the sum of \<open>A[k] * B[k]\<close> over the common
  keys, and \<open>A * B == B * A\<close>.
\<close>

theorem counter_mul_pairwise:
  assumes "is_dict (c_d A)" and "is_dict (c_d B)"
  shows "is_dict (c_d (counter_mul A B)) \<and>
    set (dict_keys (c_d (counter_mul A B))) = set (dict_keys (c_d A)) \<inter> set (dict_keys (c_d B)) \<and>
    (\<forall>k \<in> set (dict_keys (c_d A)) \<inter> set (dict_keys (c_d B)).
       map_of (c_d (counter_mul A B)) k = Some (the (map_of (c_d A) k) * the (map_of (c_d B) k))) \<and>
    c_total (counter_mul A B) =
      (\<Sum>k \<in> set (dict_keys (c_d A)) \<inter> set (dict_keys (c_d B)).
         the (map_of (c_d A) k) * the (map_of (c_d B) k)) \<and>
    counter_eq (counter_mul A B) (counter_mul B A)"
proof -
  have eq: "counter_eq (counter_mul A B) (counter_mul B A)"
    unfolding counter_eq_def dict_eq_def
    by (simp only: counter_mul_items [OF assms] counter_mul_items [OF assms(2) assms(1)]
        common_items_commute [OF assms])
  show ?thesis
  proof (cases "counter_len A \<le> counter_len B")
    case True
    have d: "c_d (counter_mul A B) = common_items (c_d A) (c_d B)"
      and t: "c_total (counter_mul A B) = sum_list (dict_values (common_items (c_d A) (c_d B)))"
      by (simp_all add: counter_mul_le [OF True] Counter_mapping_def)
    have 1: "is_dict (c_d (counter_mul A B))"
      by (simp only: d common_items_is_dict [OF assms(1)])
    have 2: "set (dict_keys (c_d (counter_mul A B))) =
        set (dict_keys (c_d A)) \<inter> set (dict_keys (c_d B))"
      unfolding d common_items_keys by auto
    have 3: "\<forall>k \<in> set (dict_keys (c_d A)) \<inter> set (dict_keys (c_d B)).
        map_of (c_d (counter_mul A B)) k = Some (the (map_of (c_d A) k) * the (map_of (c_d B) k))"
      unfolding d by (simp add: common_items_value)
    have 4: "c_total (counter_mul A B) =
      (\<Sum>k \<in> set (dict_keys (c_d A)) \<inter> set (dict_keys (c_d B)).
         the (map_of (c_d A) k) * the (map_of (c_d B) k))"
      by (simp only: t common_items_total [OF assms(1)])
    from 1 2 3 4 eq show ?thesis by (intro conjI)
  next
    case False
    have d: "c_d (counter_mul A B) = common_items (c_d B) (c_d A)"
      and t: "c_total (counter_mul A B) = sum_list (dict_values (common_items (c_d B) (c_d A)))"
      by (simp_all add: counter_mul_gt [OF False] Counter_mapping_def)
    have 1: "is_dict (c_d (counter_mul A B))"
      by (simp only: d common_items_is_dict [OF assms(2)])
    have 2: "set (dict_keys (c_d (counter_mul A B))) =
        set (dict_keys (c_d A)) \<inter> set (dict_keys (c_d B))"
      unfolding d common_items_keys by auto
    have 3: "\<forall>k \<in> set (dict_keys (c_d A)) \<inter> set (dict_keys (c_d B)).
        map_of (c_d (counter_mul A B)) k = Some (the (map_of (c_d A) k) * the (map_of (c_d B) k))"
      unfolding d by (simp add: common_items_value mult.commute)
    have 4: "c_total (counter_mul A B) =
      (\<Sum>k \<in> set (dict_keys (c_d A)) \<inter> set (dict_keys (c_d B)).
         the (map_of (c_d A) k) * the (map_of (c_d B) k))"
      by (simp only: t common_items_total_swapped [OF assms(2)])
    from 1 2 3 4 eq show ?thesis by (intro conjI)
  qed
qed

theorem counter_mul_pairwise_witness:
  "is_dict (c_d (Counter_iterable [1, 1, 2 :: nat])) \<and>
   is_dict (c_d (Counter_mapping [(2 :: nat, 3), (1, 5), (7, 1)])) \<and>
   c_d (counter_mul (Counter_iterable [1, 1, 2]) (Counter_mapping [(2 :: nat, 3), (1, 5), (7, 1)]))
     = [(1, 10), (2, 3)] \<and>
   c_total (counter_mul (Counter_iterable [1, 1, 2]) (Counter_mapping [(2 :: nat, 3), (1, 5), (7, 1)]))
     = 13 \<and>
   counter_eq
     (counter_mul (Counter_iterable [1, 1, 2]) (Counter_mapping [(2 :: nat, 3), (1, 5), (7, 1)]))
     (counter_mul (Counter_mapping [(2 :: nat, 3), (1, 5), (7, 1)]) (Counter_iterable [1, 1, 2]))"
proof -
  have a: "is_dict (c_d (Counter_iterable [1, 1, 2 :: nat]))"
    by (simp add: is_dict_def dict_keys_def Counter_iterable_def Counter_mapping_def count_elem_def)
  have b: "is_dict (c_d (Counter_mapping [(2 :: nat, 3), (1, 5), (7, 1)]))"
    by (simp add: is_dict_def dict_keys_def Counter_mapping_def)
  have c: "c_d (counter_mul (Counter_iterable [1, 1, 2])
        (Counter_mapping [(2 :: nat, 3), (1, 5), (7, 1)])) = [(1, 10), (2, 3)]"
    by (simp add: counter_mul_def counter_len_def common_items_def dict_keys_def
        Counter_iterable_def Counter_mapping_def count_elem_def)
  have d: "c_total (counter_mul (Counter_iterable [1, 1, 2])
        (Counter_mapping [(2 :: nat, 3), (1, 5), (7, 1)])) = 13"
    by (simp add: counter_mul_def counter_len_def common_items_def dict_keys_def dict_values_def
        Counter_iterable_def Counter_mapping_def count_elem_def)
  from counter_mul_pairwise [OF a b] a b c d show ?thesis by simp
qed

section \<open>predicates: compounds_with\<close>

text \<open>
  The concrete predicate classes of \<^verbatim>\<open>predicates.py\<close>. \<^verbatim>\<open>type(other) == type(self)\<close>
  compares these classes.
\<close>

datatype pred_class =
    SimplePredicate
  | StringPredicate
  | ExistsPredicate
  | TfidfTextSearchPredicate
  | TfidfSetSearchPredicate
  | TfidfNGramSearchPredicate
  | TfidfTextCanopyPredicate
  | TfidfSetCanopyPredicate
  | TfidfNGramCanopyPredicate
  | LevenshteinCanopyPredicate
  | LevenshteinSearchPredicate

text \<open>The classes that inherit from \<^verbatim>\<open>IndexPredicate\<close>.\<close>

fun is_index_class :: "pred_class \<Rightarrow> bool" where
  "is_index_class SimplePredicate = False"
| "is_index_class StringPredicate = False"
| "is_index_class ExistsPredicate = False"
| "is_index_class _ = True"

text \<open>
  A predicate object: its class, its \<^verbatim>\<open>field\<close>, its \<^verbatim>\<open>__name__\<close>, and, for the classes
  built on a function, \<^verbatim>\<open>getattr(self.func, 'compounds_with_same_field', True)\<close>.
\<close>

record predicate =
  p_class :: pred_class
  p_field :: string
  p_name :: string
  func_compounds_with_same_field :: bool

text \<open>
  \<^verbatim>\<open>self.compounds_with(other)\<close>, by the class of \<open>self\<close>: \<^verbatim>\<open>SimplePredicate\<close>,
  \<^verbatim>\<open>StringPredicate\<close>, \<^verbatim>\<open>ExistsPredicate\<close>, and \<^verbatim>\<open>IndexPredicate\<close> for all the others.
\<close>

definition compounds_with :: "predicate \<Rightarrow> predicate \<Rightarrow> bool" where
  "compounds_with self other =
     (case p_class self of
        SimplePredicate \<Rightarrow> True
      | StringPredicate \<Rightarrow>
          (if p_field other = p_field self
           then (if \<not> func_compounds_with_same_field self then False else True)
           else True)
      | ExistsPredicate \<Rightarrow> (if p_field self = p_field other then False else True)
      | _ \<Rightarrow>
          (if p_field other = p_field self
           then (if p_class other = p_class self then False else True)
           else True))"

text \<open>
  Claim C6, as stated: an index predicate never compounds with a predicate on the same
  field. It fails: a TF-IDF canopy predicate on \<open>name\<close> compounds with a simple predicate
  on \<open>name\<close>, the two being of different classes.
\<close>

theorem index_compounds_with_same_field_counterexample:
  "is_index_class (p_class \<lparr>p_class = TfidfTextCanopyPredicate, p_field = ''name'',
       p_name = ''(0.5, name)'', func_compounds_with_same_field = True\<rparr>) \<and>
   p_field \<lparr>p_class = SimplePredicate, p_field = ''name'',
       p_name = ''(wholeFieldPredicate, name)'', func_compounds_with_same_field = False\<rparr>
     = p_field \<lparr>p_class = TfidfTextCanopyPredicate, p_field = ''name'',
       p_name = ''(0.5, name)'', func_compounds_with_same_field = True\<rparr> \<and>
   compounds_with
     \<lparr>p_class = TfidfTextCanopyPredicate, p_field = ''name'',
       p_name = ''(0.5, name)'', func_compounds_with_same_field = True\<rparr>
     \<lparr>p_class = SimplePredicate, p_field = ''name'',
       p_name = ''(wholeFieldPredicate, name)'', func_compounds_with_same_field = False\<rparr>"
  by (simp add: compounds_with_def)

text \<open>
  Claim C6, amended: for an index predicate \<open>p\<close> and a predicate \<open>q\<close>,
  \<open>p.compounds_with(q)\<close> is false exactly when \<open>q\<close> is on the field of \<open>p\<close> and of the
  same concrete class as \<open>p\<close>.
\<close>

theorem index_compounds_with_iff:
  assumes "is_index_class (p_class p)"
  shows "compounds_with p q \<longleftrightarrow> \<not> (p_field q = p_field p \<and> p_class q = p_class p)"
  using assms by (cases "p_class p") (simp_all add: compounds_with_def)

theorem index_compounds_with_iff_witness:
  "is_index_class (p_class \<lparr>p_class = LevenshteinSearchPredicate, p_field = ''city'',
       p_name = ''(0.8, city)'', func_compounds_with_same_field = True\<rparr>) \<and>
   \<not> compounds_with
     \<lparr>p_class = LevenshteinSearchPredicate, p_field = ''city'',
       p_name = ''(0.8, city)'', func_compounds_with_same_field = True\<rparr>
     \<lparr>p_class = LevenshteinSearchPredicate, p_field = ''city'',
       p_name = ''(0.4, city)'', func_compounds_with_same_field = True\<rparr>"
  using index_compounds_with_iff
    [of "\<lparr>p_class = LevenshteinSearchPredicate, p_field = ''city'',
       p_name = ''(0.8, city)'', func_compounds_with_same_field = True\<rparr>"
        "\<lparr>p_class = LevenshteinSearchPredicate, p_field = ''city'',
       p_name = ''(0.4, city)'', func_compounds_with_same_field = True\<rparr>"]
  by simp

section \<open>predicates.CanopyPredicate\<close>

datatype error = KeyError | AttributeError | IndexError | TypeError | ValueError

text \<open>
  A record maps field names to values; a value is \<open>None\<close> or a string, and is falsy when
  it is \<open>None\<close> or empty. \<open>record[field]\<close> raises \<^verbatim>\<open>KeyError\<close> on a missing field.
\<close>

type_synonym pyvalue = "string option"
type_synonym pyrecord = "string \<rightharpoonup> pyvalue"

fun truthy :: "pyvalue \<Rightarrow> bool" where
  "truthy None = False"
| "truthy (Some s) = (s \<noteq> [])"

text \<open>\<^verbatim>\<open>str(n)\<close> for a document id.\<close>

fun str_nat :: "nat \<Rightarrow> string" where
  "str_nat n =
     (if n < 10 then [''0123456789'' ! n]
      else str_nat (n div 10) @ [''0123456789'' ! (n mod 10)])"

declare str_nat.simps [simp del]

text \<open>
  The index of an index predicate is outside the predicate: it is taken by its two
  operations, the table \<^verbatim>\<open>_doc_to_id\<close> and \<^verbatim>\<open>search(doc, threshold)\<close>.
\<close>

record 'doc index =
  doc_to_id :: "'doc \<rightharpoonup> nat"
  index_search :: "'doc \<Rightarrow> rat \<Rightarrow> nat list"

text \<open>
  The state of a canopy predicate. \<^verbatim>\<open>canopy\<close> maps a document id to its centre, or
  to \<open>None\<close> for a document whose search found nothing; \<^verbatim>\<open>index\<close> is \<open>None\<close> until the
  predicate is indexed.
\<close>

record 'doc canopy_predicate =
  cp_field :: string
  cp_threshold :: rat
  cp_index :: "'doc index option"
  cp_canopy :: "nat \<rightharpoonup> nat option"
  cp_cache :: "pyvalue \<rightharpoonup> string list"

text \<open>The loop over \<^verbatim>\<open>canopy_members\<close>: a member without an entry gets the new centre.\<close>

definition assign_member :: "nat \<Rightarrow> (nat \<rightharpoonup> nat option) \<Rightarrow> nat \<Rightarrow> (nat \<rightharpoonup> nat option)" where
  "assign_member doc_id canopy member =
     (case canopy member of None \<Rightarrow> canopy(member \<mapsto> Some doc_id) | Some _ \<Rightarrow> canopy)"

definition block_keys :: "nat option \<Rightarrow> string list" where
  "block_keys block_key = (case block_key of None \<Rightarrow> [] | Some k \<Rightarrow> [str_nat k])"

text \<open>
  \<^verbatim>\<open>CanopyPredicate.__call__(record)\<close>, with the \<^verbatim>\<open>preprocess\<close> method of the concrete
  class as a parameter. The result is the value returned or the exception raised, and
  the predicate after the call.
\<close>

definition canopy_call ::
  "(string \<Rightarrow> 'doc) \<Rightarrow> 'doc canopy_predicate \<Rightarrow> pyrecord
     \<Rightarrow> (error + string list) \<times> 'doc canopy_predicate" where
  "canopy_call preprocess self record =
     (case record (cp_field self) of
        None \<Rightarrow> (Inl KeyError, self)
      | Some column \<Rightarrow>
          if truthy column then
            (case cp_cache self column of
               Some keys \<Rightarrow> (Inr keys, self)
             | None \<Rightarrow>
                 let doc = preprocess (the column) in
                 (case cp_index self of
                    None \<Rightarrow> (Inl AttributeError, self)
                  | Some idx \<Rightarrow>
                      (case doc_to_id idx doc of
                         None \<Rightarrow> (Inl KeyError, self)
                       | Some doc_id \<Rightarrow>
                           (case cp_canopy self doc_id of
                              Some block_key \<Rightarrow> (Inr (block_keys block_key), self)
                            | None \<Rightarrow>
                                let canopy_members = index_search idx doc (cp_threshold self);
                                    canopy = foldl (assign_member doc_id) (cp_canopy self)
                                               canopy_members
                                in if canopy_members \<noteq> []
                                   then (Inr (block_keys (Some doc_id)),
                                         self\<lparr>cp_canopy := canopy(doc_id \<mapsto> Some doc_id)\<rparr>)
                                   else (Inr (block_keys None),
                                         self\<lparr>cp_canopy := canopy(doc_id \<mapsto> None)\<rparr>)))))
          else (Inr (block_keys None), self))"

text \<open>A sequence of calls on one predicate; an exception leaves the predicate as it was.\<close>

definition canopy_calls ::
  "(string \<Rightarrow> 'doc) \<Rightarrow> 'doc canopy_predicate \<Rightarrow> pyrecord list \<Rightarrow> 'doc canopy_predicate" where
  "canopy_calls preprocess self records =
     foldl (\<lambda>p r. snd (canopy_call preprocess p r)) self records"

text \<open>
  The example of the specification: a canopy predicate on \<open>name\<close> over an index of three
  names, where the search for \<open>john smith\<close> finds \<open>john smith\<close> and \<open>jon smith\<close>.
\<close>

definition names_index :: "string index" where
  "names_index =
     \<lparr>doc_to_id = map_of [(''john smith'', 0), (''jon smith'', 1), (''jane doe'', 2)],
      index_search = (\<lambda>doc t. if doc = ''john smith'' then [0, 1]
                         else if doc = ''jon smith'' then [1, 0] else [2])\<rparr>"

definition names_canopy :: "string canopy_predicate" where
  "names_canopy =
     \<lparr>cp_field = ''name'', cp_threshold = 1 / 2, cp_index = Some names_index,
      cp_canopy = Map.empty, cp_cache = Map.empty\<rparr>"

section \<open>Canopy stickiness\<close>

lemma assign_member_keeps:
  "canopy d = Some v \<Longrightarrow> assign_member doc_id canopy m d = Some v"
  by (auto simp: assign_member_def split: option.splits)

lemma assign_members_keep:
  "canopy d = Some v \<Longrightarrow> foldl (assign_member doc_id) canopy ms d = Some v"
  by (induction ms arbitrary: canopy) (simp_all add: assign_member_keeps)

lemma assign_members_centre:
  "foldl (assign_member doc_id) canopy ms d = Some v \<Longrightarrow>
     canopy d = Some v \<or> (canopy d = None \<and> v = Some doc_id)"
proof (induction ms arbitrary: canopy)
  case Nil
  then show ?case by simp
next
  case (Cons m ms)
  from Cons.IH [OF Cons.prems [simplified]] show ?case
    by (auto simp: assign_member_def split: option.splits if_splits)
qed

lemma canopy_call_keeps:
  assumes "cp_canopy self d = Some v"
  shows "cp_canopy (snd (canopy_call preprocess self record)) d = Some v"
proof -
  have upd: "\<And>doc_id ms w. cp_canopy self doc_id = None \<Longrightarrow>
      ((foldl (assign_member doc_id) (cp_canopy self) ms)(doc_id \<mapsto> w)) d = Some v"
    using assms by (auto simp: assign_members_keep)
  show ?thesis
    using assms
    by (auto simp: canopy_call_def Let_def upd assign_members_keep split: option.splits)
qed

lemma canopy_calls_keep:
  "cp_canopy self d = Some v \<Longrightarrow> cp_canopy (canopy_calls preprocess self records) d = Some v"
  unfolding canopy_calls_def
  by (induction records arbitrary: self) (simp_all add: canopy_call_keeps)

text \<open>
  Claim C7. Canopy stickiness: once, after some calls of a canopy predicate, the canopy
  gives document \<open>d\<close> the centre \<open>c\<close> (not \<open>None\<close>), it gives \<open>d\<close> the centre \<open>c\<close> after any
  further calls; so the entries written for the members of a new canopy are never
  overwritten.
\<close>

theorem canopy_sticky:
  assumes "cp_canopy (canopy_calls preprocess self earlier) d = Some (Some c)"
  shows "cp_canopy (canopy_calls preprocess self (earlier @ later)) d = Some (Some c)"
proof -
  have "canopy_calls preprocess self (earlier @ later) =
      canopy_calls preprocess (canopy_calls preprocess self earlier) later"
    by (simp add: canopy_calls_def)
  with assms show ?thesis by (simp add: canopy_calls_keep)
qed

theorem canopy_sticky_witness:
  "cp_canopy (canopy_calls (\<lambda>s. s) names_canopy [[''name'' \<mapsto> Some ''john smith'']]) 1
     = Some (Some 0) \<and>
   cp_canopy (canopy_calls (\<lambda>s. s) names_canopy
       ([[''name'' \<mapsto> Some ''john smith'']] @
        [[''name'' \<mapsto> Some ''jon smith''], [''name'' \<mapsto> Some ''jane doe'']])) 1
     = Some (Some 0) \<and>
   fst (canopy_call (\<lambda>s. s)
         (canopy_calls (\<lambda>s. s) names_canopy [[''name'' \<mapsto> Some ''john smith'']])
         [''name'' \<mapsto> Some ''jon smith'']) = Inr [''0'']"
proof -
  have h: "cp_canopy (canopy_calls (\<lambda>s. s) names_canopy [[''name'' \<mapsto> Some ''john smith'']]) 1
     = Some (Some 0)"
    by (simp add: canopy_calls_def canopy_call_def names_canopy_def names_index_def
        assign_member_def Let_def)
  have k: "fst (canopy_call (\<lambda>s. s)
         (canopy_calls (\<lambda>s. s) names_canopy [[''name'' \<mapsto> Some ''john smith'']])
         [''name'' \<mapsto> Some ''jon smith'']) = Inr [''0'']"
    by (simp add: canopy_calls_def canopy_call_def names_canopy_def names_index_def
        assign_member_def block_keys_def str_nat.simps Let_def)
  from canopy_sticky [OF h] h k show ?thesis by simp
qed

section \<open>training.Cover\<close>

text \<open>
  A cover is a dict from predicates to sets of pair ids (indices into the list of
  matches). \<open>lookup d k\<close> is \<open>d[k]\<close> for a key \<open>k\<close> of \<open>d\<close>.
\<close>

type_synonym 'p cover = "('p, nat set) dict"

definition lookup :: "('k, 'v) dict \<Rightarrow> 'k \<Rightarrow> 'v" where
  "lookup d k = the (map_of d k)"

text \<open>
  \<^verbatim>\<open>Cover.dominators(cost)\<close>. The keys are sorted by \<^verbatim>\<open>(-cost[x], len(self._d[x]))\<close>;
  a candidate is kept unless a predicate after it in that order has a cover that
  includes its cover and a cost not above its cost (the \<^verbatim>\<open>for ... break ... else\<close>).
  \<^verbatim>\<open>cost[x]\<close> raises \<^verbatim>\<open>KeyError\<close> for a key without a cost.
\<close>

definition better_or_equal :: "('p \<Rightarrow> rat) \<Rightarrow> 'p cover \<Rightarrow> 'p \<Rightarrow> 'p \<Rightarrow> bool" where
  "better_or_equal c d candidate pred =
     (lookup d pred \<supseteq> lookup d candidate \<and> c pred \<le> c candidate)"

fun dominants :: "('p \<Rightarrow> rat) \<Rightarrow> 'p cover \<Rightarrow> 'p list \<Rightarrow> 'p cover" where
  "dominants c d [] = []"
| "dominants c d (candidate # rest) =
     (if list_ex (better_or_equal c d candidate) rest then dominants c d rest
      else (candidate, lookup d candidate) # dominants c d rest)"

definition sort_key_dom :: "('p \<Rightarrow> rat) \<Rightarrow> 'p cover \<Rightarrow> 'p \<Rightarrow> rat \<times> nat" where
  "sort_key_dom c d x = (- c x, card (lookup d x))"

definition dominators :: "('p \<rightharpoonup> rat) \<Rightarrow> 'p cover \<Rightarrow> error + 'p cover" where
  "dominators cost d =
     (if list_ex (\<lambda>k. cost k = None) (dict_keys d) then Inl KeyError
      else let c = (\<lambda>k. the (cost k));
               ordered_predicates = sort_key (sort_key_dom c d) (dict_keys d)
           in Inr (dominants c d ordered_predicates))"

text \<open>
  The example of the specification: costs \<open>p: 10, q: 5, r: 5\<close> and covers
  \<open>p: {1,2,3}, q: {1,2,3}, r: {4}\<close>.
\<close>

definition example_cover :: "string cover" where
  "example_cover = [(''p'', {1, 2, 3}), (''q'', {1, 2, 3}), (''r'', {4})]"

definition example_cost :: "string \<rightharpoonup> rat" where
  "example_cost = map_of [(''p'', 10), (''q'', 5), (''r'', 5)]"

section \<open>Dominators\<close>

lemma dominants_keys_subset: "set (dict_keys (dominants c d xs)) \<subseteq> set xs"
  by (induction xs) (auto simp: dict_keys_def)

lemma dominants_lookup:
  "k \<in> set (dict_keys (dominants c d xs)) \<Longrightarrow> distinct xs \<Longrightarrow>
     lookup (dominants c d xs) k = lookup d k"
proof (induction xs)
  case Nil
  then show ?case by (simp add: dict_keys_def)
next
  case (Cons x xs)
  then show ?case
    using dominants_keys_subset [of c d xs]
    by (auto simp: dict_keys_def lookup_def split: if_splits)
qed

lemma dominants_sorted:
  "sorted (map f xs) \<Longrightarrow> sorted (map f (dict_keys (dominants c d xs)))"
proof (induction xs)
  case Nil
  then show ?case by (simp add: dict_keys_def)
next
  case (Cons x xs)
  then show ?case
    using dominants_keys_subset [of c d xs]
    by (auto simp: dict_keys_def)
qed


lemma dominants_cong:
  "(\<And>k. k \<in> set xs \<Longrightarrow> lookup d1 k = lookup d2 k) \<Longrightarrow> dominants c d1 xs = dominants c d2 xs"
proof (induction xs)
  case Nil
  then show ?case by simp
next
  case (Cons x xs)
  have "list_ex (better_or_equal c d1 x) xs = list_ex (better_or_equal c d2 x) xs"
    using Cons.prems by (auto simp: list_ex_iff better_or_equal_def)
  with Cons show ?case by simp
qed

text \<open>A list in which no element is dominated by a later one is kept whole.\<close>

fun undominated :: "('p \<Rightarrow> rat) \<Rightarrow> 'p cover \<Rightarrow> 'p list \<Rightarrow> bool" where
  "undominated c d [] = True"
| "undominated c d (x # xs) = (\<not> list_ex (better_or_equal c d x) xs \<and> undominated c d xs)"

lemma dominants_undominated: "undominated c d (dict_keys (dominants c d xs))"
proof (induction xs)
  case Nil
  then show ?case by (simp add: dict_keys_def)
next
  case (Cons x xs)
  then show ?case
    using dominants_keys_subset [of c d xs]
    by (auto simp: dict_keys_def list_ex_iff)
qed

lemma undominated_cong:
  "(\<And>k. k \<in> set xs \<Longrightarrow> lookup d1 k = lookup d2 k) \<Longrightarrow>
     undominated c d1 xs = undominated c d2 xs"
proof (induction xs)
  case Nil
  then show ?case by simp
next
  case (Cons x xs)
  have "list_ex (better_or_equal c d1 x) xs = list_ex (better_or_equal c d2 x) xs"
    using Cons.prems by (auto simp: list_ex_iff better_or_equal_def)
  with Cons show ?case by simp
qed

lemma dominants_fixed:
  "undominated c d xs \<Longrightarrow> dominants c d xs = map (\<lambda>k. (k, lookup d k)) xs"
  by (induction xs) auto

lemma dominants_items:
  "distinct xs \<Longrightarrow>
     dominants c d xs = map (\<lambda>k. (k, lookup d k)) (dict_keys (dominants c d xs))"
  by (induction xs) (auto simp: dict_keys_def)

lemma dominants_idem:
  assumes "distinct xs"
  shows "dominants c (dominants c d xs) (dict_keys (dominants c d xs)) = dominants c d xs"
proof -
  let ?d' = "dominants c d xs"
  have "dominants c ?d' (dict_keys ?d') = dominants c d (dict_keys ?d')"
    by (rule dominants_cong) (simp add: dominants_lookup assms)
  also have "\<dots> = map (\<lambda>k. (k, lookup d k)) (dict_keys ?d')"
    by (rule dominants_fixed) (rule dominants_undominated)
  also have "\<dots> = ?d'"
    using dominants_items [OF assms] by simp
  finally show ?thesis .
qed


lemma dominators_defined:
  assumes "\<forall>k \<in> set (dict_keys d). cost k \<noteq> None"
  shows "dominators cost d =
     Inr (dominants (\<lambda>k. the (cost k)) d
            (sort_key (sort_key_dom (\<lambda>k. the (cost k)) d) (dict_keys d)))"
  using assms by (simp add: dominators_def list_ex_iff Let_def)

text \<open>
  Claim C5. \<^verbatim>\<open>Cover.dominators(cost)\<close> is idempotent: for a cover and a cost map defined
  on its keys, the first application returns a cover that a second application with
  the same costs leaves as it is; in it no predicate has a later predicate whose cover
  includes its cover at a cost not above its cost.
\<close>

theorem dominators_idempotent:
  assumes "is_dict d" and "\<forall>k \<in> set (dict_keys d). cost k \<noteq> None"
  shows "\<exists>d'. dominators cost d = Inr d' \<and> dominators cost d' = Inr d' \<and>
           undominated (\<lambda>k. the (cost k)) d' (dict_keys d')"
proof -
  let ?c = "\<lambda>k. the (cost k)"
  let ?xs = "sort_key (sort_key_dom ?c d) (dict_keys d)"
  let ?d' = "dominants ?c d ?xs"
  have dist: "distinct ?xs" using assms(1) by (simp add: is_dict_def)
  have first: "dominators cost d = Inr ?d'" by (rule dominators_defined [OF assms(2)])
  have sub: "set (dict_keys ?d') \<subseteq> set (dict_keys d)"
    using dominants_keys_subset [of ?c d ?xs] by simp
  have look: "\<And>k. k \<in> set (dict_keys ?d') \<Longrightarrow> lookup ?d' k = lookup d k"
    using dominants_lookup [OF _ dist] by blast
  have keyeq: "map (sort_key_dom ?c ?d') (dict_keys ?d') = map (sort_key_dom ?c d) (dict_keys ?d')"
    by (simp add: sort_key_dom_def look)
  have "sorted (map (sort_key_dom ?c d) (dict_keys ?d'))"
    by (rule dominants_sorted) simp
  then have "sorted (map (sort_key_dom ?c ?d') (dict_keys ?d'))"
    by (simp only: keyeq)
  then have same: "sort_key (sort_key_dom ?c ?d') (dict_keys ?d') = dict_keys ?d'"
    by (rule sort_key_id_if_sorted)
  have "\<forall>k \<in> set (dict_keys ?d'). cost k \<noteq> None" using sub assms(2) by blast
  then have "dominators cost ?d' = Inr (dominants ?c ?d' (dict_keys ?d'))"
    by (simp only: dominators_defined same)
  then have second: "dominators cost ?d' = Inr ?d'"
    by (simp only: dominants_idem [OF dist])
  have "undominated ?c d (dict_keys ?d')" by (rule dominants_undominated)
  then have und: "undominated ?c ?d' (dict_keys ?d')"
    using undominated_cong [of "dict_keys ?d'" ?d' d ?c] look by blast
  from first second und show ?thesis by blast
qed

theorem dominators_idempotent_witness:
  "is_dict example_cover \<and> dict_keys example_cover = [''p'', ''q'', ''r''] \<and>
   example_cost ''p'' = Some 10 \<and> example_cost ''q'' = Some 5 \<and> example_cost ''r'' = Some 5 \<and>
   dominators example_cost example_cover = Inr [(''r'', {4}), (''q'', {1, 2, 3})] \<and>
   dominators example_cost [(''r'', {4}), (''q'', {1, 2, 3})] = Inr [(''r'', {4}), (''q'', {1, 2, 3})]"
proof -
  have a: "is_dict example_cover"
    by (simp add: is_dict_def dict_keys_def example_cover_def)
  have b: "\<forall>k \<in> set (dict_keys example_cover). example_cost k \<noteq> None"
    by (simp add: dict_keys_def example_cover_def example_cost_def)
  have c: "dominators example_cost example_cover = Inr [(''r'', {4}), (''q'', {1, 2, 3})]"
    by (simp add: dominators_def example_cover_def example_cost_def dict_keys_def
        sort_key_dom_def lookup_def better_or_equal_def)
  from dominators_idempotent [OF a b] obtain d' where
    "dominators example_cost example_cover = Inr d'" "dominators example_cost d' = Inr d'"
    by blast
  with c have "dominators example_cost [(''r'', {4}), (''q'', {1, 2, 3})] =
      Inr [(''r'', {4}), (''q'', {1, 2, 3})]" by simp
  with a c show ?thesis by (simp add: dict_keys_def example_cover_def example_cost_def)
qed

section \<open>Cover.compound\<close>








section \<open>Compound covers\<close>














lemma lookup_cong: "map_of d1 k = map_of d2 k \<Longrightarrow> lookup d1 k = lookup d2 k"
  by (simp add: lookup_def)











section \<open>training.BranchBound\<close>

text \<open>
  \<^verbatim>\<open>cheapest_score\<close> starts as \<^verbatim>\<open>float('inf')\<close> and is a sum of counts afterwards.
\<close>

datatype score = Fin rat | Infinity

fun score_less :: "rat \<Rightarrow> score \<Rightarrow> bool" where
  "score_less s Infinity = True"
| "score_less s (Fin c) = (s < c)"

text \<open>\<^verbatim>\<open>p.count < cheapest_score - score\<close>\<close>

fun in_window :: "rat \<Rightarrow> score \<Rightarrow> rat \<Rightarrow> bool" where
  "in_window count_p Infinity s = True"
| "in_window count_p (Fin c) s = (count_p < c - s)"

text \<open>
  What \<^verbatim>\<open>search\<close> returns: the candidates it was first called with, or a tuple of
  predicates.
\<close>

datatype 'p rules = Candidates "'p cover" | Partial "'p list"

fun predicates_of :: "'p rules \<Rightarrow> 'p list" where
  "predicates_of (Candidates d) = dict_keys d"
| "predicates_of (Partial ps) = ps"

text \<open>
  The searcher. \<^verbatim>\<open>cheapest\<close> is not an attribute until the first call sets it (\<open>None\<close>
  here), and reading it before raises \<^verbatim>\<open>AttributeError\<close>.
\<close>

record 'p branch_bound =
  calls :: int
  target :: int
  cheapest_score :: score
  original_cover :: "'p cover option"
  cheapest :: "'p rules option"

definition BranchBound :: "int \<Rightarrow> int \<Rightarrow> 'p branch_bound" where
  "BranchBound tgt max_calls =
     \<lparr>calls = max_calls, target = tgt, cheapest_score = Infinity,
      original_cover = None, cheapest = None\<rparr>"

definition union_all :: "nat set list \<Rightarrow> nat set" where
  "union_all cs = foldl (\<union>) {} cs"

text \<open>\<^verbatim>\<open>covered(partial)\<close>; \<^verbatim>\<open>original_cover[p]\<close> raises \<^verbatim>\<open>KeyError\<close> for an unknown \<open>p\<close>.\<close>

definition covered :: "'p cover \<Rightarrow> 'p list \<Rightarrow> error + int" where
  "covered oc partial =
     (if partial = [] then Inr 0
      else if list_ex (\<lambda>p. p \<notin> set (dict_keys oc)) partial then Inl KeyError
      else Inr (int (card (union_all (map (lookup oc) partial)))))"

definition reachable :: "'p cover \<Rightarrow> int" where
  "reachable dupe_cover =
     (if dupe_cover = [] then 0 else int (card (union_all (dict_values dupe_cover))))"

definition score_of :: "('p \<Rightarrow> rat) \<Rightarrow> 'p list \<Rightarrow> rat" where
  "score_of count partial = sum_list (map count partial)"

definition order_by :: "('p \<Rightarrow> rat) \<Rightarrow> 'p cover \<Rightarrow> 'p \<Rightarrow> nat \<times> rat" where
  "order_by count candidates p = (card (lookup candidates p), - count p)"

text \<open>
  \<^verbatim>\<open>max(xs, key=f)\<close> for a list that is not empty: the first of the maximal elements.
\<close>

definition py_max :: "('a \<Rightarrow> 'b::linorder) \<Rightarrow> 'a list \<Rightarrow> 'a" where
  "py_max f xs = foldl (\<lambda>m x. if f m < f x then x else m) (hd xs) (tl xs)"

definition uncovered_by :: "'p cover \<Rightarrow> nat set \<Rightarrow> 'p cover" where
  "uncovered_by coverage cov =
     filter (\<lambda>(predicate, still_uncovered). still_uncovered \<noteq> {})
       (map (\<lambda>(predicate, uncovered). (predicate, uncovered - cov)) coverage)"

definition remove_dominated :: "('p \<Rightarrow> rat) \<Rightarrow> 'p cover \<Rightarrow> 'p \<Rightarrow> 'p cover" where
  "remove_dominated count coverage dominator =
     (let dominant_cover = lookup coverage dominator
      in filter (\<lambda>(pred, cover). \<not> (count dominator \<le> count pred \<and> dominant_cover \<supseteq> cover))
           coverage)"

definition within_window :: "('p \<Rightarrow> rat) \<Rightarrow> score \<Rightarrow> rat \<Rightarrow> 'p cover \<Rightarrow> 'p cover" where
  "within_window count cheapest_sc s candidates =
     filter (\<lambda>(p, cover). in_window (count p) cheapest_sc s) candidates"

text \<open>The first steps of \<^verbatim>\<open>search\<close>: the first call keeps the candidates; every call counts.\<close>

definition enter :: "'p branch_bound \<Rightarrow> 'p cover \<Rightarrow> 'p branch_bound" where
  "enter self candidates =
     (let self = (if original_cover self = None
                  then self\<lparr>original_cover := Some candidates,
                            cheapest := Some (Candidates candidates)\<rparr>
                  else self)
      in self\<lparr>calls := calls self - 1\<rparr>)"

lemma py_max_in: "xs \<noteq> [] \<Longrightarrow> py_max f xs \<in> set xs"
proof -
  have "\<And>m. foldl (\<lambda>m x. if f m < f x then x else m) m ys \<in> insert m (set ys)" for ys
    by (induction ys) auto
  from this [of "hd xs" "tl xs"] show "xs \<noteq> [] \<Longrightarrow> py_max f xs \<in> set xs"
    unfolding py_max_def by (cases xs) auto
qed

lemma filter_drops_one: "x \<in> set xs \<Longrightarrow> \<not> P x \<Longrightarrow> length (filter P xs) < length xs"
  by (induction xs) (auto simp: less_Suc_eq_le)

lemma key_has_item: "k \<in> set (dict_keys c) \<Longrightarrow> (k, lookup c k) \<in> set c"
proof -
  assume "k \<in> set (dict_keys c)"
  then obtain v where v: "map_of c k = Some v"
    by (metis dict_keys_def domD dom_map_of_conv_image_fst list.set_map)
  then have "(k, v) \<in> set c" by (rule map_of_SomeD)
  with v show ?thesis by (simp add: lookup_def)
qed

lemma uncovered_by_shorter:
  assumes "k \<in> set (dict_keys c)"
  shows "length (uncovered_by c (lookup c k)) < length c"
proof -
  let ?m = "map (\<lambda>(predicate, uncovered). (predicate, uncovered - lookup c k)) c"
  from key_has_item [OF assms] have "(k, lookup c k - lookup c k) \<in> set ?m" by force
  then have "(k, {}) \<in> set ?m" by simp
  then have "length (filter (\<lambda>(predicate, still_uncovered). still_uncovered \<noteq> {}) ?m) < length ?m"
    by (rule filter_drops_one) simp
  then show ?thesis by (simp add: uncovered_by_def)
qed

lemma remove_dominated_shorter:
  assumes "k \<in> set (dict_keys c)"
  shows "length (remove_dominated count c k) < length c"
  unfolding remove_dominated_def Let_def
  by (rule filter_drops_one [OF key_has_item [OF assms]]) simp

lemma within_window_length: "length (within_window count cs s c) \<le> length c"
  by (simp add: within_window_def)

lemma best_is_key: "c \<noteq> [] \<Longrightarrow> py_max f (dict_keys c) \<in> set (dict_keys c)"
  by (rule py_max_in) (simp add: dict_keys_def)

text \<open>
  \<^verbatim>\<open>search(candidates, partial)\<close>. The result is the exception raised or the searcher
  after the call; the value returned by the call is its \<^verbatim>\<open>cheapest\<close>.
\<close>

function search ::
  "('p \<Rightarrow> rat) \<Rightarrow> 'p branch_bound \<Rightarrow> 'p cover \<Rightarrow> 'p list \<Rightarrow> error + 'p branch_bound" where
  "search count self candidates partial =
     (if calls self \<le> 0
      then (case cheapest self of None \<Rightarrow> Inl AttributeError | Some r \<Rightarrow> Inr self)
      else
        let self = enter self candidates in
        case covered (the (original_cover self)) partial of
          Inl e \<Rightarrow> Inl e
        | Inr cov \<Rightarrow>
            let score = score_of count partial in
            if cov \<ge> target self
            then (if score_less score (cheapest_score self)
                  then Inr (self\<lparr>cheapest := Some (Partial partial),
                                cheapest_score := Fin score\<rparr>)
                  else Inr self)
            else
              let candidates = within_window count (cheapest_score self) score candidates;
                  reach = reachable candidates + cov
              in if candidates \<noteq> [] \<and> reach \<ge> target self
                 then
                   let best = py_max (order_by count candidates) (dict_keys candidates);
                       remaining = uncovered_by candidates (lookup candidates best)
                   in case search count self remaining (partial @ [best]) of
                        Inl e \<Rightarrow> Inl e
                      | Inr self \<Rightarrow>
                          search count self (remove_dominated count candidates best) partial
                 else Inr self)"
  by pat_completeness auto
termination
proof (relation "measure (\<lambda>(count, self, candidates, partial). length candidates)", goal_cases)
  case 1
  show ?case by simp
next
  case (2 count self candidates partial self1 cov score cands reach best remaining)
  have "length remaining < length cands"
    unfolding 2 using 2 uncovered_by_shorter [OF best_is_key] by blast
  moreover have "length cands \<le> length candidates"
    unfolding 2 by (rule within_window_length)
  ultimately show ?case by simp
next
  case (3 count self candidates partial self1 cov score cands reach best remaining self2)
  have "length (remove_dominated count cands best) < length cands"
    unfolding 3 using 3 remove_dominated_shorter [OF best_is_key] by blast
  moreover have "length cands \<le> length candidates"
    unfolding 3 by (rule within_window_length)
  ultimately show ?case by simp
qed


declare search.simps [simp del]

text \<open>
  \<^verbatim>\<open>BranchBound(target, max_calls).search(candidates)\<close>: a new searcher, one call with
  the empty partial solution, and the value it returns.
\<close>

definition BranchBound_search ::
  "('p \<Rightarrow> rat) \<Rightarrow> int \<Rightarrow> int \<Rightarrow> 'p cover \<Rightarrow> error + 'p rules" where
  "BranchBound_search count tgt max_calls candidates =
     (case search count (BranchBound tgt max_calls) candidates [] of
        Inl e \<Rightarrow> Inl e
      | Inr self \<Rightarrow> (case cheapest self of None \<Rightarrow> Inl AttributeError | Some r \<Rightarrow> Inr r))"

text \<open>
  The counts of the example predicates, and the example cover after \<^verbatim>\<open>dominators\<close>.
\<close>

definition example_count :: "string \<Rightarrow> rat" where
  "example_count p = the (example_cost p)"

definition example_candidates :: "string cover" where
  "example_candidates = [(''r'', {4}), (''q'', {1, 2, 3})]"

section \<open>Feasibility of the search result\<close>

text \<open>
  A value of \<^verbatim>\<open>cheapest\<close> is feasible for the cover \<open>oc\<close> and a target when it is \<open>oc\<close>
  itself or a tuple of keys of \<open>oc\<close> whose covers in \<open>oc\<close> have a union of at least
  \<open>target\<close> elements.
\<close>

fun feasible :: "'p cover \<Rightarrow> int \<Rightarrow> 'p rules \<Rightarrow> bool" where
  "feasible oc tgt (Candidates d) = (d = oc)"
| "feasible oc tgt (Partial ps) =
     (set ps \<subseteq> set (dict_keys oc) \<and> tgt \<le> int (card (\<Union>p \<in> set ps. lookup oc p)))"

definition searching :: "'p cover \<Rightarrow> 'p branch_bound \<Rightarrow> bool" where
  "searching oc self =
     (original_cover self = Some oc \<and>
      (\<exists>r. cheapest self = Some r \<and> feasible oc (target self) r))"

lemma union_all_acc: "foldl (\<union>) a cs = a \<union> \<Union> (set cs)"
  by (induction cs arbitrary: a) auto

lemma union_all_set: "union_all cs = \<Union> (set cs)"
  by (simp add: union_all_def union_all_acc)

lemma covered_keys:
  "set partial \<subseteq> set (dict_keys oc) \<Longrightarrow>
     covered oc partial = Inr (int (card (\<Union>p \<in> set partial. lookup oc p)))"
  by (auto simp: covered_def list_ex_iff union_all_set)

lemma enter_searching:
  assumes "original_cover self = None \<and> oc = candidates \<or> searching oc self"
  shows "searching oc (enter self candidates)"
  using assms by (auto simp: enter_def searching_def Let_def)

lemma enter_target [simp]: "target (enter self candidates) = target self"
  by (simp add: enter_def Let_def)

lemma within_window_keys:
  "set (dict_keys (within_window count cs s c)) \<subseteq> set (dict_keys c)"
  by (auto simp: within_window_def dict_keys_def)

lemma uncovered_by_keys: "set (dict_keys (uncovered_by c cov)) \<subseteq> set (dict_keys c)"
  by (force simp: uncovered_by_def dict_keys_def)

lemma remove_dominated_keys: "set (dict_keys (remove_dominated count c k)) \<subseteq> set (dict_keys c)"
  by (auto simp: remove_dominated_def dict_keys_def Let_def)

lemma search_keeps_searching:
  assumes "original_cover self = None \<and> 0 < calls self \<and> oc = candidates \<or> searching oc self"
    and "set partial \<subseteq> set (dict_keys oc)"
    and "set (dict_keys candidates) \<subseteq> set (dict_keys oc)"
  shows "\<exists>self'. search count self candidates partial = Inr self' \<and> searching oc self' \<and>
           target self' = target self"
  using assms
proof (induction count self candidates partial rule: search.induct)
  case (1 count self candidates partial)
  show ?case
  proof (cases "calls self \<le> 0")
    case True
    with "1.prems"(1) have "searching oc self" by auto
    then show ?thesis
      using True by (auto simp: search.simps [of count self] searching_def)
  next
    case False
    define self1 where "self1 = enter self candidates"
    define score where "score = score_of count partial"
    define cov where "cov = int (card (\<Union>p \<in> set partial. lookup oc p))"
    define cands where "cands = within_window count (cheapest_score self1) score candidates"
    define best where "best = py_max (order_by count cands) (dict_keys cands)"
    define remaining where "remaining = uncovered_by cands (lookup cands best)"
    have s1: "searching oc self1"
      unfolding self1_def using "1.prems"(1) by (intro enter_searching) auto
    then have oc1: "original_cover self1 = Some oc" by (simp add: searching_def)
    have t1: "target self1 = target self" by (simp add: self1_def)
    have cv: "covered (the (original_cover self1)) partial = Inr cov"
      by (simp add: oc1 cov_def covered_keys "1.prems"(2))
    show ?thesis
    proof (cases "target self1 \<le> cov")
      case True
      have feas: "feasible oc (target self1) (Partial partial)"
        using True "1.prems"(2) by (simp add: cov_def)
      show ?thesis
        using False True s1 feas t1 cv
        by (auto simp: search.simps [of count self] self1_def [symmetric] Let_def
            searching_def)
    next
      case notcovered: False
      show ?thesis
      proof (cases "cands \<noteq> [] \<and> target self1 \<le> reachable cands + cov")
        case False
        with \<open>\<not> calls self \<le> 0\<close> notcovered s1 t1 cv show ?thesis
          by (auto simp: search.simps [of count self] self1_def [symmetric] Let_def
              score_def [symmetric] cands_def [symmetric])
      next
        case True
        then have ne: "cands \<noteq> []" by simp
        have ck: "set (dict_keys cands) \<subseteq> set (dict_keys oc)"
          unfolding cands_def using within_window_keys "1.prems"(3) by fast
        have bk: "best \<in> set (dict_keys cands)"
          unfolding best_def by (rule best_is_key [OF ne])
        have p1: "set (partial @ [best]) \<subseteq> set (dict_keys oc)"
          using "1.prems"(2) bk ck by auto
        have rk: "set (dict_keys remaining) \<subseteq> set (dict_keys oc)"
          unfolding remaining_def using uncovered_by_keys ck by fast
        have dk: "set (dict_keys (remove_dominated count cands best)) \<subseteq> set (dict_keys oc)"
          using remove_dominated_keys ck by fast
        have "\<exists>self2. search count self1 remaining (partial @ [best]) = Inr self2 \<and>
            searching oc self2 \<and> target self2 = target self1"
          using \<open>\<not> calls self \<le> 0\<close> notcovered True s1 p1 rk cv
          by (intro "1.IH"(1) [OF _ self1_def cv score_def _ cands_def _ _ best_def remaining_def])
             (auto simp: )
        then obtain self2 where
          c1: "search count self1 remaining (partial @ [best]) = Inr self2"
          and s2: "searching oc self2" and t2: "target self2 = target self1"
          by blast
        have "\<exists>self3. search count self2 (remove_dominated count cands best) partial = Inr self3 \<and>
            searching oc self3 \<and> target self3 = target self2"
          using \<open>\<not> calls self \<le> 0\<close> notcovered True s2 dk "1.prems"(2) cv c1
          by (intro "1.IH"(2) [OF _ self1_def cv score_def _ cands_def _ _ best_def remaining_def c1])
             (auto simp: )
        then obtain self3 where
          c2: "search count self2 (remove_dominated count cands best) partial = Inr self3"
          and s3: "searching oc self3" and t3: "target self3 = target self2"
          by blast
        have "search count self candidates partial = Inr self3"
          using \<open>\<not> calls self \<le> 0\<close> notcovered True cv c1 c2
          by (simp add: search.simps [of count self] self1_def [symmetric] Let_def
              score_def [symmetric] cands_def [symmetric] best_def [symmetric]
              remaining_def [symmetric])
        with s3 t3 t2 t1 show ?thesis by simp
      qed
    qed
  qed
qed


lemma BranchBound_search_feasible:
  assumes "0 < max_calls"
  shows "\<exists>r. BranchBound_search count tgt max_calls candidates = Inr r \<and>
           feasible candidates tgt r"
proof -
  let ?new = "BranchBound tgt max_calls :: 'a branch_bound"
  have "original_cover ?new = None \<and> 0 < calls ?new \<and> candidates = candidates \<or>
      searching candidates ?new"
    using assms by (simp add: BranchBound_def)
  from search_keeps_searching [OF this, of "[]" count]
  obtain self' where "search count ?new candidates [] = Inr self'"
    and "searching candidates self'" and "target self' = tgt"
    by (auto simp: BranchBound_def)
  then show ?thesis
    by (auto simp: BranchBound_search_def searching_def)
qed

text \<open>
  Claim C2. A call \<^verbatim>\<open>BranchBound(target, max_calls).search(candidates)\<close> with
  \<open>max_calls > 0\<close> returns, for every cover and every target, and the value returned is
  the candidates it was called with or a tuple of their predicates whose covers in
  \<^verbatim>\<open>original_cover\<close> (the candidates) have a union of at least \<open>target\<close> elements. This
  holds whatever \<open>max_calls\<close> is, so also when the calls run out before a partial
  solution is recorded.
\<close>

theorem search_result_feasible:
  assumes "0 < max_calls"
  shows "\<exists>r. BranchBound_search count tgt max_calls candidates = Inr r \<and>
     (r = Candidates candidates \<or>
      (\<exists>ps. r = Partial ps \<and> set ps \<subseteq> set (dict_keys candidates) \<and>
            tgt \<le> int (card (\<Union>p \<in> set ps. lookup candidates p))))"
proof -
  from BranchBound_search_feasible [OF assms] obtain r where
    r: "BranchBound_search count tgt max_calls candidates = Inr r" "feasible candidates tgt r"
    by blast
  from r(2) have "r = Candidates candidates \<or>
      (\<exists>ps. r = Partial ps \<and> set ps \<subseteq> set (dict_keys candidates) \<and>
            tgt \<le> int (card (\<Union>p \<in> set ps. lookup candidates p)))"
    by (cases r) simp_all
  with r(1) show ?thesis by blast
qed

lemmas search_eval_defs =
  BranchBound_search_def BranchBound_def search.simps enter_def covered_def score_of_def
  within_window_def dict_keys_def dict_values_def Let_def reachable_def union_all_def
  py_max_def order_by_def lookup_def uncovered_by_def remove_dominated_def

lemma example_search_all_calls:
  "BranchBound_search example_count 4 2500 example_candidates = Inr (Partial [''q'', ''r''])"
  by (simp add: search_eval_defs example_count_def example_cost_def example_candidates_def)

lemma example_search_one_call:
  "BranchBound_search example_count 4 1 example_candidates = Inr (Candidates example_candidates)"
  by (simp add: search_eval_defs example_count_def example_cost_def example_candidates_def)

theorem search_result_feasible_witness:
  "(0 :: int) < 2500 \<and>
   BranchBound_search example_count 4 2500 example_candidates = Inr (Partial [''q'', ''r'']) \<and>
   4 \<le> int (card (lookup example_candidates ''q'' \<union> lookup example_candidates ''r'')) \<and>
   (0 :: int) < 1 \<and>
   BranchBound_search example_count 4 1 example_candidates = Inr (Candidates example_candidates)"
proof -
  have pos: "(0 :: int) < 2500" by simp
  from search_result_feasible [OF pos, of example_count 4 example_candidates]
  have "4 \<le> int (card (lookup example_candidates ''q'' \<union> lookup example_candidates ''r''))"
    unfolding example_search_all_calls by simp
  then show ?thesis
    by (simp add: example_search_all_calls example_search_one_call)
qed

text \<open>
  Claim C9. On an empty candidate set, with \<open>max_calls > 0\<close> and any target,
  \<^verbatim>\<open>search\<close> raises nothing and returns a rule set without predicates: the empty tuple
  when the target is at most \<open>0\<close>, the empty candidates otherwise.
\<close>

theorem search_empty_candidates:
  assumes "0 < max_calls"
  shows "BranchBound_search count tgt max_calls [] =
       Inr (if tgt \<le> 0 then Partial [] else Candidates []) \<and>
     predicates_of (if tgt \<le> 0 then Partial [] else Candidates ([] :: 'p cover)) = []"
  using assms
  by (simp add: BranchBound_search_def BranchBound_def search.simps [of count _ "[]"] enter_def
      covered_def score_of_def within_window_def dict_keys_def Let_def)

theorem search_empty_candidates_witness:
  "(0 :: int) < 2500 \<and>
   BranchBound_search example_count 3 2500 [] = Inr (Candidates []) \<and>
   BranchBound_search example_count 0 2500 [] = Inr (Partial [])"
  using search_empty_candidates [of 2500 example_count 3]
    search_empty_candidates [of 2500 example_count 0]
  by (simp add: dict_keys_def)

section \<open>training.BlockLearner.learn\<close>










section \<open>The recall bound\<close>
























section \<open>labeler: pop\<close>

text \<open>
  The numpy operations used by \<^verbatim>\<open>pop\<close>. \<^verbatim>\<open>argmax\<close> and \<^verbatim>\<open>argmin\<close> give the first index
  of a largest (smallest) element of a sequence that is not empty, and raise
  \<^verbatim>\<open>ValueError\<close> on an empty one, which the callers below check. \<^verbatim>\<open>numpy.delete\<close> and
  \<^verbatim>\<open>list.pop\<close> remove the element at an index.
\<close>

fun argmax :: "'a::linorder list \<Rightarrow> nat" where
  "argmax [] = 0"
| "argmax [x] = 0"
| "argmax (x # y # ys) = (let j = argmax (y # ys) in if x < (y # ys) ! j then Suc j else 0)"

fun argmin :: "'a::linorder list \<Rightarrow> nat" where
  "argmin [] = 0"
| "argmin [x] = 0"
| "argmin (x # y # ys) = (let j = argmin (y # ys) in if (y # ys) ! j < x then Suc j else 0)"

definition np_delete :: "'a list \<Rightarrow> nat \<Rightarrow> 'a list" where
  "np_delete xs i = take i xs @ drop (Suc i) xs"

text \<open>
  The attribute \<^verbatim>\<open>distances\<close> of an \<^verbatim>\<open>RLRLearner\<close>. \<^verbatim>\<open>__init__\<close> binds it to the data
  model (a \<^verbatim>\<open>Distances\<close> object, which \<^verbatim>\<open>transform\<close> calls) and stores the matrix of the
  distances of the candidates in \<^verbatim>\<open>distance_matrix\<close>; \<^verbatim>\<open>candidate_scores\<close>, \<^verbatim>\<open>pop\<close> and
  \<^verbatim>\<open>_remove\<close> use \<^verbatim>\<open>distances\<close> as that matrix, one row for each candidate.
  \<^verbatim>\<open>predict_proba\<close>, of the regression library, multiplies its argument with the weights
  (\<^verbatim>\<open>numpy.dot\<close>): it gives a score for each row of a matrix, and raises \<^verbatim>\<open>TypeError\<close> for
  an object that is not an array of numbers.
\<close>

datatype 'row distances = Distances_model | Distance_matrix "'row list"

fun rows_of :: "'row distances \<Rightarrow> 'row list" where
  "rows_of Distances_model = []"
| "rows_of (Distance_matrix rows) = rows"

text \<open>
  A disagreement learner: the candidates (one list, shared with its two sub-learners),
  the attribute \<^verbatim>\<open>distances\<close> of its classifier, and the labels cached by the block
  learner (\<open>None\<close> when \<^verbatim>\<open>_cached_labels\<close> is \<open>None\<close>).
\<close>

record ('pair, 'row) disagreement_learner =
  dl_candidates :: "'pair list"
  dl_distances :: "'row distances"
  dl_cached_labels :: "int list option"

text \<open>
  \<^verbatim>\<open>DisagreementLearner.pop\<close>. Outside this development, and taken as parameters: the
  classifier's \<^verbatim>\<open>predict_proba\<close> (a score for a row of distances), the block learner's
  \<^verbatim>\<open>predict\<close> (the label \<open>1\<close> or \<open>0\<close> of a candidate), the subtraction \<open>fsub\<close> of float
  scores, \<^verbatim>\<open>numpy.std\<close> of a row of two scores, and the value \<open>u\<close> drawn by
  \<^verbatim>\<open>numpy.random.uniform\<close>. A score is the rational number that the float is.
  \<^verbatim>\<open>numpy.std(probs > 0.5, axis=1).astype(bool)\<close> is true for a row whose two scores are
  on different sides of \<open>0.5\<close>. The result is the value returned or the exception raised,
  and the learner after the call.
\<close>

definition select_index ::
  "(rat \<Rightarrow> rat \<Rightarrow> rat) \<Rightarrow> (rat \<Rightarrow> rat \<Rightarrow> rat) \<Rightarrow> rat \<Rightarrow> (rat \<times> rat) list \<Rightarrow> error + nat" where
  "select_index fsub row_std u probs =
     (let disagreement = map (\<lambda>(a, b). (a > 1 / 2) \<noteq> (b > 1 / 2)) probs
      in if list_ex (\<lambda>d. d) disagreement
         then let conflicts = filter (\<lambda>i. disagreement ! i) [0 ..< length probs];
                  target = u
              in Inr (conflicts ! argmax (map (\<lambda>i. fsub (fst (probs ! i)) target) conflicts))
         else if probs = [] then Inl ValueError
         else Inr (argmax (map (\<lambda>(a, b). row_std a b) probs)))"

definition dl_pop ::
  "(rat \<Rightarrow> rat \<Rightarrow> rat) \<Rightarrow> (rat \<Rightarrow> rat \<Rightarrow> rat) \<Rightarrow> ('row \<Rightarrow> rat) \<Rightarrow> ('pair \<Rightarrow> int) \<Rightarrow> rat
     \<Rightarrow> ('pair, 'row) disagreement_learner
     \<Rightarrow> (error + 'pair list) \<times> ('pair, 'row) disagreement_learner" where
  "dl_pop fsub row_std predict_proba predict u self =
     (if length (dl_candidates self) = 0 then (Inl IndexError, self)
      else
        case dl_distances self of
          Distances_model \<Rightarrow> (Inl TypeError, self)
        | Distance_matrix rows \<Rightarrow>
            let classifier_scores = map predict_proba rows;
                labels = (case dl_cached_labels self of
                            None \<Rightarrow> map predict (dl_candidates self)
                          | Some cached \<Rightarrow> cached);
                self = self\<lparr>dl_cached_labels := Some labels\<rparr>
            in if length classifier_scores \<noteq> length labels then (Inl ValueError, self)
               else
                 let probs = zip classifier_scores (map of_int labels)
                 in case select_index fsub row_std u probs of
                      Inl e \<Rightarrow> (Inl e, self)
                    | Inr uncertain_index \<Rightarrow>
                        if uncertain_index < length (dl_candidates self)
                        then (Inr [dl_candidates self ! uncertain_index],
                              self\<lparr>dl_candidates := np_delete (dl_candidates self) uncertain_index,
                                   dl_distances := Distance_matrix (np_delete rows uncertain_index),
                                   dl_cached_labels := Some (np_delete labels uncertain_index)\<rparr>)
                        else (Inl IndexError, self))"

text \<open>
  An \<^verbatim>\<open>RLRLearner\<close>: the candidates, the attributes \<^verbatim>\<open>distances\<close> and
  \<^verbatim>\<open>distance_matrix\<close>, and the labels \<open>y\<close> it was fitted on.
\<close>

record ('pair, 'row) rlr_learner =
  rl_candidates :: "'pair list"
  rl_distances :: "'row distances"
  rl_distance_matrix :: "'row list"
  rl_y :: "int list"

definition bias :: "int list \<Rightarrow> rat" where
  "bias y =
     (let positive = length (filter (\<lambda>l. l = 1) y);
          n_examples = length y;
          b = 1 - (if positive \<noteq> 0 then of_nat positive / of_nat n_examples else 0);
          uncertainty_weight = min positive (n_examples - positive);
          bias_weight = 10;
          weighted_bias = (1 / 2) * of_nat uncertainty_weight + b * bias_weight
      in weighted_bias / (of_nat uncertainty_weight + bias_weight))"

text \<open>\<^verbatim>\<open>RLRLearner.pop\<close>, with \<^verbatim>\<open>predict_proba\<close> as a parameter and exact arithmetic.\<close>

definition rl_pop ::
  "('row \<Rightarrow> rat) \<Rightarrow> ('pair, 'row) rlr_learner
     \<Rightarrow> (error + 'pair list) \<times> ('pair, 'row) rlr_learner" where
  "rl_pop predict_proba self =
     (if length (rl_candidates self) = 0 then (Inl IndexError, self)
      else
        let target_uncertainty = bias (rl_y self)
        in case rl_distances self of
             Distances_model \<Rightarrow> (Inl TypeError, self)
           | Distance_matrix rows \<Rightarrow>
               let probabilities = map predict_proba rows
               in if probabilities = [] then (Inl ValueError, self)
                  else
                    let distance_to_target = map (\<lambda>p. \<bar>target_uncertainty - p\<bar>) probabilities;
                        uncertain_index = argmin distance_to_target;
                        self = self\<lparr>rl_distances := Distance_matrix (np_delete rows uncertain_index)\<rparr>
                    in if uncertain_index < length (rl_candidates self)
                       then (Inr [rl_candidates self ! uncertain_index],
                             self\<lparr>rl_candidates := np_delete (rl_candidates self) uncertain_index\<rparr>)
                       else (Inl IndexError, self))"

text \<open>
  The learners as their constructors leave them. \<^verbatim>\<open>RLRLearner.__init__\<close>, given the
  candidates: \<^verbatim>\<open>distances\<close> is the data model, \<^verbatim>\<open>distance_matrix\<close> is
  \<^verbatim>\<open>transform(candidates)\<close>, and the fit on an exact match and a random pair leaves
  \<open>y = [1, 0]\<close>. The disagreement learner builds its classifier so, and the block learner
  has no cached labels after the first \<^verbatim>\<open>mark\<close>.
\<close>

definition RLRLearner_init :: "('pair \<Rightarrow> 'row) \<Rightarrow> 'pair list \<Rightarrow> ('pair, 'row) rlr_learner" where
  "RLRLearner_init transform_pair candidates =
     \<lparr>rl_candidates = candidates, rl_distances = Distances_model,
      rl_distance_matrix = map transform_pair candidates, rl_y = [1, 0]\<rparr>"

definition DisagreementLearner_init :: "'pair list \<Rightarrow> ('pair, 'row) disagreement_learner" where
  "DisagreementLearner_init candidates =
     \<lparr>dl_candidates = candidates, dl_distances = Distances_model, dl_cached_labels = None\<rparr>"

text \<open>
  The candidate pool is row-aligned: \<^verbatim>\<open>distances\<close> is the matrix, with one row, and one
  cached label if the labels are cached, for each candidate.
\<close>

definition dl_aligned :: "('pair, 'row) disagreement_learner \<Rightarrow> bool" where
  "dl_aligned self =
     (dl_distances self = Distance_matrix (rows_of (dl_distances self)) \<and>
      length (rows_of (dl_distances self)) = length (dl_candidates self) \<and>
      (case dl_cached_labels self of
         None \<Rightarrow> True
       | Some cached \<Rightarrow> length cached = length (dl_candidates self)))"

definition rl_aligned :: "('pair, 'row) rlr_learner \<Rightarrow> bool" where
  "rl_aligned self =
     (rl_distances self = Distance_matrix (rows_of (rl_distances self)) \<and>
      length (rows_of (rl_distances self)) = length (rl_candidates self))"

section \<open>Indices in range\<close>

lemma argmax_less: "xs \<noteq> [] \<Longrightarrow> argmax xs < length xs"
  by (induction xs rule: argmax.induct) (auto simp: Let_def)

lemma argmin_less: "xs \<noteq> [] \<Longrightarrow> argmin xs < length xs"
  by (induction xs rule: argmin.induct) (auto simp: Let_def)

lemma length_np_delete: "i < length xs \<Longrightarrow> length (np_delete xs i) = length xs - 1"
  by (auto simp: np_delete_def)


lemma filter_upt_nonempty: "i < n \<Longrightarrow> P i \<Longrightarrow> filter P [0 ..< n] \<noteq> []"
  by (auto simp: filter_empty_conv)

lemma select_index_in_range:
  assumes "probs \<noteq> []"
  shows "\<exists>i. select_index fsub row_std u probs = Inr i \<and> i < length probs"
proof (cases "list_ex (\<lambda>d. d) (map (\<lambda>(a, b). (a > 1 / 2) \<noteq> (b > 1 / 2)) probs)")
  case True
  let ?dis = "map (\<lambda>(a, b). (a > 1 / 2) \<noteq> (b > 1 / 2)) probs"
  let ?conflicts = "filter (\<lambda>i. ?dis ! i) [0 ..< length probs]"
  from True have "True \<in> set ?dis" by (auto simp: list_ex_iff)
  then obtain i where "i < length ?dis" "?dis ! i" by (metis in_set_conv_nth)
  then have "i < length probs" "(\<lambda>i. ?dis ! i) i" by simp_all
  then have ne: "?conflicts \<noteq> []" by (rule filter_upt_nonempty)
  let ?k = "argmax (map (\<lambda>i. fsub (fst (probs ! i)) u) ?conflicts)"
  have "?k < length ?conflicts" using argmax_less [of "map (\<lambda>i. fsub (fst (probs ! i)) u) ?conflicts"] ne
    by simp
  then have "?conflicts ! ?k \<in> set ?conflicts" by (rule nth_mem)
  then have "?conflicts ! ?k < length probs" by simp
  with True show ?thesis by (simp add: select_index_def Let_def)
next
  case False
  have "argmax (map (\<lambda>(a, b). row_std a b) probs) < length probs"
    using argmax_less [of "map (\<lambda>(a, b). row_std a b) probs"] assms by simp
  with False assms show ?thesis by (simp add: select_index_def Let_def)
qed

lemma dl_pop_empty:
  "dl_candidates self = [] \<Longrightarrow> dl_pop fsub row_std pp pr u self = (Inl IndexError, self)"
  by (simp add: dl_pop_def)

lemma dl_pop_nonempty:
  assumes "dl_candidates self \<noteq> []" and "dl_aligned self"
  shows "\<exists>i < length (dl_candidates self). \<exists>self'.
     dl_pop fsub row_std pp pr u self = (Inr [dl_candidates self ! i], self') \<and>
     dl_candidates self' = np_delete (dl_candidates self) i \<and> dl_aligned self'"
proof -
  define rows where "rows = rows_of (dl_distances self)"
  have dm: "dl_distances self = Distance_matrix rows"
    using assms(2) by (simp add: dl_aligned_def rows_def)
  define labels where "labels = (case dl_cached_labels self of
      None \<Rightarrow> map pr (dl_candidates self) | Some cached \<Rightarrow> cached)"
  define probs where "probs = zip (map pp rows) (map rat_of_int labels)"
  have ll: "length labels = length (dl_candidates self)"
    using assms(2) by (auto simp: labels_def dl_aligned_def split: option.splits)
  have ld: "length rows = length (dl_candidates self)"
    using assms(2) by (simp add: dl_aligned_def rows_def)
  have lp: "length probs = length (dl_candidates self)" by (simp add: probs_def ll ld)
  with assms(1) have "probs \<noteq> []" by auto
  from select_index_in_range [OF this, of fsub row_std u] obtain i where
    i: "select_index fsub row_std u probs = Inr i" "i < length probs" by blast
  have il: "i < length (dl_candidates self)" using i(2) lp by simp
  let ?self' = "self\<lparr>dl_cached_labels := Some labels,
      dl_candidates := np_delete (dl_candidates self) i,
      dl_distances := Distance_matrix (np_delete rows i),
      dl_cached_labels := Some (np_delete labels i)\<rparr>"
  have "dl_pop fsub row_std pp pr u self = (Inr [dl_candidates self ! i], ?self')"
    using assms(1) il i(1) ll ld
    by (simp add: dl_pop_def dm Let_def labels_def [symmetric] probs_def [symmetric])
  moreover have "dl_aligned ?self'"
    using il ll ld by (simp add: dl_aligned_def length_np_delete)
  ultimately show ?thesis using il by auto
qed

lemma rl_pop_empty:
  "rl_candidates self = [] \<Longrightarrow> rl_pop pp self = (Inl IndexError, self)"
  by (simp add: rl_pop_def)

lemma rl_pop_nonempty:
  assumes "rl_candidates self \<noteq> []" and "rl_aligned self"
  shows "\<exists>i < length (rl_candidates self). \<exists>self'.
     rl_pop pp self = (Inr [rl_candidates self ! i], self') \<and>
     rl_candidates self' = np_delete (rl_candidates self) i \<and> rl_aligned self'"
proof -
  define rows where "rows = rows_of (rl_distances self)"
  have dm: "rl_distances self = Distance_matrix rows"
    using assms(2) by (simp add: rl_aligned_def rows_def)
  define ds where "ds = map (\<lambda>p. \<bar>bias (rl_y self) - p\<bar>) (map pp rows)"
  have ld: "length rows = length (rl_candidates self)"
    using assms(2) by (simp add: rl_aligned_def rows_def)
  with assms(1) have ne: "ds \<noteq> []" by (auto simp: ds_def)
  have il: "argmin ds < length (rl_candidates self)"
    using argmin_less [OF ne] ld by (simp add: ds_def)
  let ?self' = "self\<lparr>rl_distances := Distance_matrix (np_delete rows (argmin ds)),
      rl_candidates := np_delete (rl_candidates self) (argmin ds)\<rparr>"
  have pne: "map pp rows \<noteq> []" using ne by (simp add: ds_def)
  have "rl_pop pp self = (Inr [rl_candidates self ! argmin ds], ?self')"
    unfolding rl_pop_def Let_def dm distances.case ds_def [symmetric]
    using assms(1) il pne by simp
  moreover have "rl_aligned ?self'"
    using il ld by (simp add: rl_aligned_def length_np_delete)
  ultimately show ?thesis using il by auto
qed


section \<open>float64 subtraction\<close>

text \<open>
  The scores are numpy float64 values, and \<^verbatim>\<open>probs[conflicts][:, 0] - target\<close> is the
  IEEE 754 subtraction: the exact difference rounded to the nearest float64, ties to
  the even significand. A finite float64 is the rational number it stands for;
  \<open>float64_round\<close> rounds a rational to 53 significant bits (to a multiple of
  \<open>2\<^sup>-\<^sup>1\<^sup>0\<^sup>7\<^sup>4\<close> below the normal range), for magnitudes below \<open>2\<^sup>1\<^sup>0\<^sup>2\<^sup>4\<close>.
\<close>

function bit_length :: "int \<Rightarrow> int" where
  "bit_length n = (if n \<le> 0 then 0 else 1 + bit_length (n div 2))"
  by pat_completeness auto
termination
  by (relation "measure nat") auto

declare bit_length.simps [simp del]

definition pow2 :: "int \<Rightarrow> rat" where
  "pow2 e = (if 0 \<le> e then 2 ^ nat e else 1 / 2 ^ nat (- e))"

text \<open>The exponent \<open>e\<close> with \<open>2\<^sup>e \<le> x < 2\<^sup>e\<^sup>+\<^sup>1\<close>, for \<open>x > 0\<close>.\<close>

definition ilog2 :: "rat \<Rightarrow> int" where
  "ilog2 x =
     (if 1 \<le> x then bit_length \<lfloor>x\<rfloor> - 1
      else - bit_length (\<lceil>1 / x\<rceil> - 1))"

definition round_half_even :: "rat \<Rightarrow> int" where
  "round_half_even q =
     (let f = \<lfloor>q\<rfloor>; d = q - of_int f
      in if d < 1 / 2 then f else if 1 / 2 < d then f + 1
         else if even f then f else f + 1)"

definition float64_round :: "rat \<Rightarrow> rat" where
  "float64_round x =
     (if x = 0 then 0
      else let e = max (ilog2 \<bar>x\<bar>) (- 1022);
               ulp = pow2 (e - 52)
           in of_int (round_half_even (x / ulp)) * ulp)"

definition float64_sub :: "rat \<Rightarrow> rat \<Rightarrow> rat" where
  "float64_sub a b = float64_round (a - b)"

text \<open>
  The running example of the specification, with \<^verbatim>\<open>distances\<close> holding the matrix:
  classifier scores \<open>0.9, 0.1, 0.8\<close> and block labels \<open>0, 0, 1\<close>; and two candidates with
  the scores \<open>2\<^sup>-\<^sup>6\<^sup>0\<close> and \<open>2\<^sup>-\<^sup>5\<^sup>9\<close>, both covered by the blocking rules. A row is the
  score that \<^verbatim>\<open>predict_proba\<close> gives it; \<open>abc_transform\<close> is the row of a candidate.
\<close>

definition abc_transform :: "string \<Rightarrow> rat" where
  "abc_transform pair = (if pair = ''a'' then 9 / 10 else if pair = ''b'' then 1 / 10 else 4 / 5)"

definition abc_learner :: "(string, rat) disagreement_learner" where
  "abc_learner =
     \<lparr>dl_candidates = [''a'', ''b'', ''c''],
      dl_distances = Distance_matrix [9 / 10, 1 / 10, 4 / 5],
      dl_cached_labels = Some [0, 0, 1]\<rparr>"


definition abc_rlr :: "(string, rat) rlr_learner" where
  "abc_rlr =
     \<lparr>rl_candidates = [''a'', ''b'', ''c''],
      rl_distances = Distance_matrix [9 / 10, 1 / 10, 4 / 5],
      rl_distance_matrix = [9 / 10, 1 / 10, 4 / 5], rl_y = [1, 0]\<rparr>"

definition exact_std :: "rat \<Rightarrow> rat \<Rightarrow> rat" where
  "exact_std a b = \<bar>a - b\<bar> / 2"

section \<open>pop and the exhausted pool\<close>

text \<open>
  For a learner whose pool is row-aligned, \<^verbatim>\<open>pop()\<close> raises \<^verbatim>\<open>IndexError\<close> exactly when
  there is no candidate left: with no candidate it raises \<^verbatim>\<open>IndexError\<close> and leaves the
  learner as it was; with a candidate it raises nothing and returns the list holding
  one pair of the pool. This is so for \<^verbatim>\<open>DisagreementLearner.pop\<close> and for
  \<^verbatim>\<open>RLRLearner.pop\<close>.
\<close>

lemma pop_aligned_IndexError_iff_empty:
  assumes "dl_aligned s" and "rl_aligned t"
  shows "(fst (dl_pop fsub row_std pp pr u s) = Inl IndexError \<longleftrightarrow> dl_candidates s = []) \<and>
    (dl_candidates s = [] \<longrightarrow> dl_pop fsub row_std pp pr u s = (Inl IndexError, s)) \<and>
    (dl_candidates s \<noteq> [] \<longrightarrow>
       (\<exists>pair s'. dl_pop fsub row_std pp pr u s = (Inr [pair], s') \<and>
                  pair \<in> set (dl_candidates s) \<and> dl_aligned s')) \<and>
    (fst (rl_pop pq t) = Inl IndexError \<longleftrightarrow> rl_candidates t = []) \<and>
    (rl_candidates t = [] \<longrightarrow> rl_pop pq t = (Inl IndexError, t)) \<and>
    (rl_candidates t \<noteq> [] \<longrightarrow>
       (\<exists>pair t'. rl_pop pq t = (Inr [pair], t') \<and>
                  pair \<in> set (rl_candidates t) \<and> rl_aligned t'))"
proof -
  have d1: "dl_candidates s = [] \<longrightarrow> dl_pop fsub row_std pp pr u s = (Inl IndexError, s)"
    by (simp add: dl_pop_empty)
  have d2: "dl_candidates s \<noteq> [] \<longrightarrow>
       (\<exists>pair s'. dl_pop fsub row_std pp pr u s = (Inr [pair], s') \<and>
                  pair \<in> set (dl_candidates s) \<and> dl_aligned s')"
  proof
    assume ne: "dl_candidates s \<noteq> []"
    from dl_pop_nonempty [OF ne assms(1), of fsub row_std pp pr u] obtain i s' where
      "i < length (dl_candidates s)"
      "dl_pop fsub row_std pp pr u s = (Inr [dl_candidates s ! i], s')" "dl_aligned s'"
      by blast
    then show "\<exists>pair s'. dl_pop fsub row_std pp pr u s = (Inr [pair], s') \<and>
                  pair \<in> set (dl_candidates s) \<and> dl_aligned s'"
      using nth_mem by blast
  qed
  have d3: "fst (dl_pop fsub row_std pp pr u s) = Inl IndexError \<longleftrightarrow> dl_candidates s = []"
    using d1 d2 by (cases "dl_candidates s = []") auto
  have r1: "rl_candidates t = [] \<longrightarrow> rl_pop pq t = (Inl IndexError, t)"
    by (simp add: rl_pop_empty)
  have r2: "rl_candidates t \<noteq> [] \<longrightarrow>
       (\<exists>pair t'. rl_pop pq t = (Inr [pair], t') \<and>
                  pair \<in> set (rl_candidates t) \<and> rl_aligned t')"
  proof
    assume ne: "rl_candidates t \<noteq> []"
    from rl_pop_nonempty [OF ne assms(2), of pq] obtain i t' where
      "i < length (rl_candidates t)"
      "rl_pop pq t = (Inr [rl_candidates t ! i], t')" "rl_aligned t'"
      by blast
    then show "\<exists>pair t'. rl_pop pq t = (Inr [pair], t') \<and>
                  pair \<in> set (rl_candidates t) \<and> rl_aligned t'"
      using nth_mem by blast
  qed
  have r3: "fst (rl_pop pq t) = Inl IndexError \<longleftrightarrow> rl_candidates t = []"
    using r1 r2 by (cases "rl_candidates t = []") auto
  from d1 d2 d3 r1 r2 r3 show ?thesis by (intro conjI)
qed

lemmas pop_eval_defs =
  dl_pop_def select_index_def np_delete_def Let_def list_ex_iff upt_rec

lemma abc_pop:
  "dl_pop (\<lambda>a b. a - b) exact_std (\<lambda>r. r) (\<lambda>p. 0) (1 / 3) abc_learner =
     (Inr [''a''], \<lparr>dl_candidates = [''b'', ''c''],
                    dl_distances = Distance_matrix [1 / 10, 4 / 5],
                    dl_cached_labels = Some [0, 1]\<rparr>)"
  by (simp add: abc_learner_def pop_eval_defs)

lemma abc_rl_pop:
  "rl_pop (\<lambda>r. r) abc_rlr =
     (Inr [''c''], \<lparr>rl_candidates = [''a'', ''b''],
                    rl_distances = Distance_matrix [9 / 10, 1 / 10],
                    rl_distance_matrix = [9 / 10, 1 / 10, 4 / 5], rl_y = [1, 0]\<rparr>)"
  by (simp add: abc_rlr_def rl_pop_def bias_def np_delete_def Let_def)

lemma abc_aligned: "dl_aligned abc_learner \<and> rl_aligned abc_rlr"
  by (simp add: dl_aligned_def rl_aligned_def abc_learner_def abc_rlr_def)

text \<open>
  Claim C8: \<^verbatim>\<open>pop()\<close> raises \<^verbatim>\<open>IndexError\<close> exactly when the pool is empty, and with a
  candidate it returns a pair and raises nothing. The learners as their constructors
  leave them break it: with the candidates \<open>a, b, c\<close> both \<^verbatim>\<open>pop\<close>s pass the guard and
  score \<^verbatim>\<open>self.distances\<close>, which is the data model (the matrix is in
  \<^verbatim>\<open>distance_matrix\<close>, which nothing reads), so that \<^verbatim>\<open>TypeError\<close> is raised, no pair is
  returned, and the learner is left as it was.
\<close>

theorem pop_after_init_TypeError:
  "dl_pop (\<lambda>a b. a - b) exact_std (\<lambda>r :: rat. r) (\<lambda>p. 0) (1 / 3)
       (DisagreementLearner_init [''a'', ''b'', ''c'']) =
     (Inl TypeError, DisagreementLearner_init [''a'', ''b'', ''c'']) \<and>
   rl_pop (\<lambda>r. r) (RLRLearner_init abc_transform [''a'', ''b'', ''c'']) =
     (Inl TypeError, RLRLearner_init abc_transform [''a'', ''b'', ''c'']) \<and>
   rl_distance_matrix (RLRLearner_init abc_transform [''a'', ''b'', ''c'']) =
     [9 / 10, 1 / 10, 4 / 5]"
  by (simp add: dl_pop_def rl_pop_def DisagreementLearner_init_def RLRLearner_init_def
      abc_transform_def Let_def)

section \<open>pop and the uniform draw\<close>








text \<open>Sample values of the float64 model.\<close>

lemma float64_round_tenth: "float64_round (1 / 10) = 3602879701896397 / 36028797018963968"
  by code_simp

lemma float64_sub_absorbs: "float64_sub (1 / 2 ^ 60) (1 / 2) = - 1 / 2"
  by code_simp





end
